theory Spec2Isabelle
  imports Main "HOL-Library.Char_ord" "HOL-Library.List_Lexorder" "HOL-Library.AList"
begin

section \<open>Pattern storage of the fsdb plugin (patterns.go)\<close>

subsection \<open>Go strings\<close>

text \<open>Go strings are byte sequences; they are modelled as \<^typ>\<open>string\<close>.  The functions
  below are the ones of package \<^verbatim>\<open>strings\<close> that patterns.go calls.\<close>

definition HasPrefix :: "string \<Rightarrow> string \<Rightarrow> bool" where
  "HasPrefix s p = (take (length p) s = p)"

definition HasSuffix :: "string \<Rightarrow> string \<Rightarrow> bool" where
  "HasSuffix s p = (length p \<le> length s \<and> drop (length s - length p) s = p)"

fun Contains :: "string \<Rightarrow> string \<Rightarrow> bool" where
  "Contains [] sub = (sub = [])"
| "Contains (c # cs) sub = (HasPrefix (c # cs) sub \<or> Contains cs sub)"

text \<open>\<^verbatim>\<open>strings.ReplaceAll\<close>: the non-overlapping occurrences of \<open>old\<close>, found from the
  left, are replaced by \<open>new\<close>; the replaced text is not scanned again.  With an empty
  \<open>old\<close> Go inserts \<open>new\<close> before every character and at the end (patterns.go never does
  that: both of its calls pass a non-empty constant).\<close>

function ReplaceAll :: "string \<Rightarrow> string \<Rightarrow> string \<Rightarrow> string" where
  "ReplaceAll s old new =
     (if old = [] then new @ concat (map (\<lambda>c. c # new) s)
      else if s = [] then []
      else if HasPrefix s old then new @ ReplaceAll (drop (length old) s) old new
      else hd s # ReplaceAll (tl s) old new)"
  by pat_completeness auto
termination
  by (relation "measure (\<lambda>(s, old, new). length s)") auto

declare ReplaceAll.simps [simp del]

definition newline :: string where
  "newline = [CHR 0x0A]"

definition backslash :: string where
  "backslash = [CHR 0x5C]"

definition inputSentinel :: string where
  "inputSentinel = ''__FABRIC_INPUT_SENTINEL_TOKEN__''"

definition inputToken :: string where
  "inputToken = ''{{input}}''"

subsection \<open>Data\<close>

text \<open>A Go \<^verbatim>\<open>error\<close> is modelled by its message.\<close>

type_synonym error = string

text \<open>A call either returns or panics (here: on a nil pointer dereference).\<close>

datatype 'a run = Returns 'a | Panics

record Pattern =
  Name :: string
  Description :: string
  Pattern :: string

text \<open>\<open>StorageEntity\<close> is declared outside patterns.go; the record has the fields that
  patterns.go uses.  A \<open>PatternsEntity\<close> embeds a pointer to its storage, taken to be non-nil.\<close>

record StorageEntity =
  Label :: string
  Dir :: string
  ItemIsDir :: bool
  FileExtension :: string

record PatternsEntity =
  Storage :: StorageEntity
  SystemPatternFile :: string
  UniquePatternsFilePath :: string
  CustomPatternsDir :: string

text \<open>What patterns.go calls outside itself: the operating system (\<^verbatim>\<open>os.ReadFile\<close>,
  \<^verbatim>\<open>os.UserHomeDir\<close>, \<^verbatim>\<open>filepath.Join\<close>) and two helpers of the repository,
  \<^verbatim>\<open>util.GetAbsolutePath\<close> and \<^verbatim>\<open>StorageEntity.GetNames\<close>.  They are parameters.\<close>

record env =
  ReadFile :: "string \<Rightarrow> error + string"
  UserHomeDir :: "error + string"
  Join :: "string list \<Rightarrow> string"
  GetAbsolutePath :: "string \<Rightarrow> error + string"
  StorageGetNames :: "StorageEntity \<Rightarrow> error + string list"

type_synonym variables = "string \<rightharpoonup> string"

text \<open>\<^verbatim>\<open>template.ApplyTemplate(content, variables, input)\<close>.\<close>

type_synonym expander = "string \<Rightarrow> variables \<Rightarrow> string \<Rightarrow> error + string"

subsection \<open>Loading\<close>

text \<open>A Go result \<^verbatim>\<open>(pattern *Pattern, err error)\<close> is a pair of options: \<open>None\<close> is nil.\<close>

definition getFromDB :: "env \<Rightarrow> PatternsEntity \<Rightarrow> string \<Rightarrow> Pattern option \<times> error option" where
  "getFromDB e ent name =
     (case (if CustomPatternsDir ent \<noteq> []
            then (case ReadFile e (Join e [CustomPatternsDir ent, name, SystemPatternFile ent]) of
                    Inr pattern \<Rightarrow> Some pattern
                  | Inl customErr \<Rightarrow> None)
            else None) of
        Some pattern \<Rightarrow> (Some \<lparr>Name = name, Description = [], Pattern = pattern\<rparr>, None)
      | None \<Rightarrow>
          (case ReadFile e (Join e [Dir (Storage ent), name, SystemPatternFile ent]) of
             Inl err \<Rightarrow> (None, Some err)
           | Inr pattern \<Rightarrow> (Some \<lparr>Name = name, Description = [], Pattern = pattern\<rparr>, None)))"

definition getFromFile :: "env \<Rightarrow> PatternsEntity \<Rightarrow> string \<Rightarrow> Pattern option \<times> error option" where
  "getFromFile e ent pathStr =
     (case (if HasPrefix pathStr ''~/''
            then (case UserHomeDir e of
                    Inl err \<Rightarrow> Inl (''could not get home directory: '' @ err)
                  | Inr homedir \<Rightarrow> Inr (Join e [homedir, drop 2 pathStr]))
            else Inr pathStr) of
        Inl err \<Rightarrow> (None, Some err)
      | Inr pathStr \<Rightarrow>
          (case ReadFile e pathStr of
             Inl err \<Rightarrow> (None, Some (''could not read pattern file '' @ pathStr @ '': '' @ err))
           | Inr content \<Rightarrow> (Some \<lparr>Name = pathStr, Description = [], Pattern = content\<rparr>, None)))"

definition isFilePath :: "string \<Rightarrow> bool" where
  "isFilePath source =
     (HasPrefix source backslash \<or> HasPrefix source ''/'' \<or>
      HasPrefix source ''~'' \<or> HasPrefix source ''.'')"

text \<open>In the file branch the error of \<open>getFromFile\<close> is assigned to the blank identifier, so
  \<open>err\<close> keeps the nil that \<open>GetAbsolutePath\<close> returned.\<close>

definition loadPattern :: "env \<Rightarrow> PatternsEntity \<Rightarrow> string \<Rightarrow> Pattern option \<times> error option" where
  "loadPattern e ent source =
     (if isFilePath source
      then (case GetAbsolutePath e source of
              Inl err \<Rightarrow> (None, Some (''could not resolve file path: '' @ err))
            | Inr absPath \<Rightarrow> (fst (getFromFile e ent absPath), None))
      else getFromDB e ent source)"

subsection \<open>Resolution\<close>

text \<open>The functions below receive a \<^verbatim>\<open>*Pattern\<close> and update the pattern it points to; the
  model returns the updated pattern, and panics where the code reads through nil.\<close>

fun ensureInput :: "Pattern option \<Rightarrow> Pattern run" where
  "ensureInput None = Panics"
| "ensureInput (Some pattern) =
     Returns
       (if \<not> Contains (Pattern pattern) inputToken
        then pattern\<lparr>Pattern :=
               (if \<not> HasSuffix (Pattern pattern) newline
                then Pattern pattern @ newline else Pattern pattern) @ inputToken\<rparr>
        else pattern)"

definition applyInput :: "Pattern option \<Rightarrow> string \<Rightarrow> Pattern run" where
  "applyInput pattern input =
     (case ensureInput pattern of
        Panics \<Rightarrow> Panics
      | Returns p \<Rightarrow> Returns (p\<lparr>Pattern := ReplaceAll (Pattern p) inputToken input\<rparr>))"

definition applyVariables ::
  "expander \<Rightarrow> Pattern option \<Rightarrow> variables \<Rightarrow> string \<Rightarrow> (Pattern \<times> error option) run" where
  "applyVariables tmpl pattern vars input =
     (case ensureInput pattern of
        Panics \<Rightarrow> Panics
      | Returns p \<Rightarrow>
          (let withSentinel = ReplaceAll (Pattern p) inputToken inputSentinel
           in case tmpl withSentinel vars input of
                Inl err \<Rightarrow> Returns (p, Some err)
              | Inr processed \<Rightarrow>
                  Returns (p\<lparr>Pattern := ReplaceAll processed inputSentinel input\<rparr>, None)))"

definition GetApplyVariables ::
  "expander \<Rightarrow> env \<Rightarrow> PatternsEntity \<Rightarrow> string \<Rightarrow> variables \<Rightarrow> string
     \<Rightarrow> (Pattern option \<times> error option) run" where
  "GetApplyVariables tmpl e ent source vars input =
     (case loadPattern e ent source of
        (pattern, Some err) \<Rightarrow> Returns (pattern, Some err)
      | (pattern, None) \<Rightarrow>
          (case applyVariables tmpl pattern vars input of
             Panics \<Rightarrow> Panics
           | Returns (p, err) \<Rightarrow> Returns (Some p, err)))"

definition GetWithoutVariables ::
  "env \<Rightarrow> PatternsEntity \<Rightarrow> string \<Rightarrow> string \<Rightarrow> (Pattern option \<times> error option) run" where
  "GetWithoutVariables e ent source input =
     (case loadPattern e ent source of
        (pattern, Some err) \<Rightarrow> Returns (pattern, Some err)
      | (pattern, None) \<Rightarrow>
          (case applyInput pattern input of
             Panics \<Rightarrow> Panics
           | Returns p \<Rightarrow> Returns (Some p, None)))"


subsection \<open>Listing\<close>

text \<open>\<open>GetNames\<close> collects the names as keys of a Go map and ranges over the map, which visits
  every key once in an order that Go leaves open.  The map is an association list with
  distinct keys, and the order of the visit is the parameter \<open>order\<close>.  The storage made for
  the custom directory has no label.\<close>

definition GetNames ::
  "(string list \<Rightarrow> string list) \<Rightarrow> env \<Rightarrow> PatternsEntity \<Rightarrow> string list option \<times> error option" where
  "GetNames order e ent =
     (case StorageGetNames e (Storage ent) of
        Inl err \<Rightarrow> (None, Some err)
      | Inr mainNames \<Rightarrow>
          (let nameMap = foldl (\<lambda>m name. AList.update name True m) [] mainNames;
               nameMap =
                 (if CustomPatternsDir ent \<noteq> []
                  then (let customStorage =
                              \<lparr>Label = [], Dir = CustomPatternsDir ent,
                               ItemIsDir = ItemIsDir (Storage ent),
                               FileExtension = FileExtension (Storage ent)\<rparr>
                        in case StorageGetNames e customStorage of
                             Inr customNames \<Rightarrow>
                               foldl (\<lambda>m name. AList.update name True m) nameMap customNames
                           | Inl customErr \<Rightarrow> nameMap)
                  else nameMap);
               ret = order (map fst nameMap)
           in (Some (sort ret), None)))"

subsection \<open>The template expander\<close>

text \<open>Modelled from the spec: \<^verbatim>\<open>template.ApplyTemplate\<close> and the extension dispatcher behind it
  are not among the sources.  The spec (4.2, phase 3 and its ordering rules, and 6) gives the
  expander two forms: \<^verbatim>\<open>{{variableName}}\<close>, which is replaced by the variable's value, the
  empty string when the name is unknown, the reserved name \<^verbatim>\<open>input\<close> being bound to the input
  argument; and \<^verbatim>\<open>{{ext:name:operation:value}}\<close>, whose value is expanded first, receives the
  real input where it refers to the input placeholder (which reads as the sentinel at this
  phase), and is handed to the dispatcher, whose output replaces the call and whose failure
  aborts the expansion.  Evaluation is inside-out and from left to right, and the result holds
  no unresolved placeholder: what a variable or an extension puts into the text is template
  text again.  So the model resolves, again and again, the leftmost placeholder that has no
  placeholder nested in it.\<close>

type_synonym dispatcher = "string \<Rightarrow> string \<Rightarrow> string \<Rightarrow> error + string"

text \<open>Modelled from the spec: a character that is no brace.\<close>

definition notBrace :: "char \<Rightarrow> bool" where
  "notBrace c = (c \<noteq> CHR ''{'' \<and> c \<noteq> CHR ''}'')"

text \<open>Modelled from the spec: a placeholder with nothing nested in it at the head of the text,
  as its body and the text after it.\<close>

definition holeAt :: "string \<Rightarrow> (string \<times> string) option" where
  "holeAt s =
     (if HasPrefix s ''{{''
      then (let body = takeWhile notBrace (drop 2 s);
                r = dropWhile notBrace (drop 2 s)
            in if HasPrefix r ''}}'' then Some (body, drop 2 r) else None)
      else None)"

text \<open>Modelled from the spec: the leftmost placeholder with nothing nested in it, as the text
  before it, its body and the text after it.\<close>

fun innermost :: "string \<Rightarrow> (string \<times> string \<times> string) option" where
  "innermost [] = None"
| "innermost (c # cs) =
     (case holeAt (c # cs) of
        Some (body, rest) \<Rightarrow> Some ([], body, rest)
      | None \<Rightarrow> map_option (\<lambda>(pre, body, rest). (c # pre, body, rest)) (innermost cs))"

text \<open>Modelled from the spec: the text before and after the first colon.\<close>

fun cut :: "string \<Rightarrow> (string \<times> string) option" where
  "cut [] = None"
| "cut (c # cs) =
     (if c = CHR '':'' then Some ([], cs)
      else map_option (\<lambda>(before, after). (c # before, after)) (cut cs))"

text \<open>Modelled from the spec: the three segments after \<^verbatim>\<open>ext\<close> of an extension call.\<close>

definition parseExt :: "string \<Rightarrow> (string \<times> string \<times> string) option" where
  "parseExt body =
     (if HasPrefix body ''ext:''
      then (case cut (drop 4 body) of
              None \<Rightarrow> None
            | Some (name, r) \<Rightarrow>
                (case cut r of
                   None \<Rightarrow> None
                 | Some (operation, val) \<Rightarrow> Some (name, operation, val)))
      else None)"

text \<open>Modelled from the spec: the value of a variable; \<^verbatim>\<open>input\<close> is never taken from the
  mapping, and an unknown name gives the empty string.\<close>

definition lookup :: "variables \<Rightarrow> string \<Rightarrow> string \<Rightarrow> string" where
  "lookup vars input name =
     (if name = ''input'' then input
      else (case vars name of None \<Rightarrow> [] | Some v \<Rightarrow> v))"

text \<open>Modelled from the spec: what the expander does for one placeholder, recorded as an event:
  it looks a variable up, or it calls an extension, the event holding the name, the operation,
  the argument as it stands in the text and the value that the dispatcher receives.\<close>

datatype event = Var string | Ext string string string string

text \<open>Modelled from the spec: one placeholder resolved, as the event and the text that replaces
  the placeholder, or the error of the dispatcher with the extension and the operation.  The
  dispatcher receives the argument with the real input in place of the sentinel.\<close>

definition resolve :: "dispatcher \<Rightarrow> variables \<Rightarrow> string \<Rightarrow> string \<Rightarrow> event \<times> (error + string)" where
  "resolve ext vars input body =
     (case parseExt body of
        None \<Rightarrow> (Var body, Inr (lookup vars input body))
      | Some (name, operation, arg) \<Rightarrow>
          (let received = ReplaceAll arg inputSentinel input
           in (Ext name operation arg received,
               case ext name operation received of
                 Inl err \<Rightarrow> Inl (''extension '' @ name @ '' '' @ operation @ '': '' @ err)
               | Inr out \<Rightarrow> Inr out)))"

text \<open>Modelled from the spec: the expansion proper, as the events in their order and the
  result.  The spec sets no bound on repeated expansion, and a variable whose value holds its
  own placeholder is expanded for ever; \<open>fuel\<close> is the number of placeholders that the model is
  willing to resolve, and the model reports an error when a placeholder is left and the fuel is
  used up.\<close>

fun expand ::
  "nat \<Rightarrow> dispatcher \<Rightarrow> variables \<Rightarrow> string \<Rightarrow> string \<Rightarrow> event list \<times> (error + string)" where
  "expand 0 ext vars input s =
     (case innermost s of
        None \<Rightarrow> ([], Inr s)
      | Some (pre, body, post) \<Rightarrow> ([], Inl ''template expansion did not finish''))"
| "expand (Suc fuel) ext vars input s =
     (case innermost s of
        None \<Rightarrow> ([], Inr s)
      | Some (pre, body, post) \<Rightarrow>
          (case resolve ext vars input body of
             (ev, Inl err) \<Rightarrow> ([ev], Inl err)
           | (ev, Inr repl) \<Rightarrow>
               (case expand fuel ext vars input (pre @ repl @ post) of
                  (evs, r) \<Rightarrow> (ev # evs, r))))"

text \<open>Modelled from the spec: \<^verbatim>\<open>template.ApplyTemplate\<close>, for a given fuel and dispatcher.\<close>

definition ApplyTemplate :: "nat \<Rightarrow> dispatcher \<Rightarrow> expander" where
  "ApplyTemplate fuel ext content vars input = snd (expand fuel ext vars input content)"

subsection \<open>Notions used in the statements\<close>

text \<open>The texts between the occurrences of \<open>tok\<close> that \<open>ReplaceAll\<close> finds, and a list of texts
  joined by a separator (\<^verbatim>\<open>strings.Join\<close>).\<close>

function pieces :: "string \<Rightarrow> string \<Rightarrow> string list" where
  "pieces s tok =
     (if tok = [] \<or> s = [] then [s]
      else if HasPrefix s tok then [] # pieces (drop (length tok) s) tok
      else (case pieces (tl s) tok of
              [] \<Rightarrow> [[hd s]]
            | seg # segs \<Rightarrow> (hd s # seg) # segs))"
  by pat_completeness auto
termination
  by (relation "measure (\<lambda>(s, tok). length s)") auto

declare pieces.simps [simp del]

fun joinWith :: "string \<Rightarrow> string list \<Rightarrow> string" where
  "joinWith sep [] = []"
| "joinWith sep [x] = x"
| "joinWith sep (x # y # ys) = x @ sep @ joinWith sep (y # ys)"

text \<open>The text of a pattern once the input placeholder is guaranteed.\<close>

definition ensuredText :: "string \<Rightarrow> string" where
  "ensuredText t =
     (if Contains t inputToken then t
      else (if HasSuffix t newline then t else t @ newline) @ inputToken)"

text \<open>An extension call as it is written in a pattern, and a name without colon or brace.\<close>

definition extBody :: "string \<Rightarrow> string \<Rightarrow> string \<Rightarrow> string" where
  "extBody name operation val = ''ext:'' @ name @ '':'' @ operation @ '':'' @ val"

definition extCall :: "string \<Rightarrow> string \<Rightarrow> string \<Rightarrow> string" where
  "extCall name operation val = ''{{'' @ extBody name operation val @ ''}}''"

definition plainName :: "string \<Rightarrow> bool" where
  "plainName s = (CHR '':'' \<notin> set s \<and> CHR ''{'' \<notin> set s \<and> CHR ''}'' \<notin> set s)"



text \<open>The text that \<open>applyVariables\<close> hands to the expander: the input placeholder guaranteed,
  and the sentinel in the place of every input placeholder.\<close>

definition sentinelText :: "string \<Rightarrow> string" where
  "sentinelText t = ReplaceAll (ensuredText t) inputToken inputSentinel"

text \<open>Modelled from the spec: the text that the expansion has reached once it has resolved
  \<open>n\<close> placeholders, none of them with an error.\<close>

fun after :: "nat \<Rightarrow> dispatcher \<Rightarrow> variables \<Rightarrow> string \<Rightarrow> string \<Rightarrow> string option" where
  "after 0 ext vars input s = Some s"
| "after (Suc n) ext vars input s =
     (case innermost s of
        None \<Rightarrow> None
      | Some (pre, body, post) \<Rightarrow>
          (case resolve ext vars input body of
             (ev, Inl err) \<Rightarrow> None
           | (ev, Inr repl) \<Rightarrow> after n ext vars input (pre @ repl @ post)))"

text \<open>The names that the custom directory contributes to a listing.\<close>

definition customNames :: "env \<Rightarrow> PatternsEntity \<Rightarrow> string set" where
  "customNames e ent =
     (if CustomPatternsDir ent = [] then {}
      else (case StorageGetNames e
                   \<lparr>Label = [], Dir = CustomPatternsDir ent, ItemIsDir = ItemIsDir (Storage ent),
                    FileExtension = FileExtension (Storage ent)\<rparr> of
              Inl customErr \<Rightarrow> {}
            | Inr names \<Rightarrow> set names))"

subsection \<open>A disk and extensions for the examples\<close>

text \<open>A disk is a list of files (path and content) and a list of directories (path and
  entries).  Reading or listing what is not on it fails the way the operating system does;
  paths are joined with a slash; absolute paths resolve to themselves.\<close>

fun joinPath :: "string list \<Rightarrow> string" where
  "joinPath [] = []"
| "joinPath [x] = x"
| "joinPath (x # y # ys) = x @ ''/'' @ joinPath (y # ys)"

definition disk :: "(string \<times> string) list \<Rightarrow> (string \<times> string list) list \<Rightarrow> env" where
  "disk files dirs =
     \<lparr>ReadFile = (\<lambda>path. case map_of files path of
                            None \<Rightarrow> Inl (''open '' @ path @ '': no such file or directory'')
                          | Some content \<Rightarrow> Inr content),
      UserHomeDir = Inr ''/home/u'',
      Join = joinPath,
      GetAbsolutePath = (\<lambda>path. Inr path),
      StorageGetNames = (\<lambda>st. case map_of dirs (Dir st) of
                            None \<Rightarrow> Inl (''open '' @ Dir st @ '': no such file or directory'')
                          | Some names \<Rightarrow> Inr names)\<rparr>"

definition store :: PatternsEntity where
  "store =
     \<lparr>Storage = \<lparr>Label = ''Patterns'', Dir = ''/patterns'', ItemIsDir = True, FileExtension = []\<rparr>,
      SystemPatternFile = ''system.md'',
      UniquePatternsFilePath = ''/unique_patterns.txt'',
      CustomPatternsDir = ''/custom''\<rparr>"

definition exampleDisk :: env where
  "exampleDisk =
     disk
       [(''/patterns/ai_echo/system.md'', ''{{ext:openai:chat:{{input}}}}''),
        (''/patterns/greet/system.md'', ''Name: {{name}}, Input: {{input}}''),
        (''/patterns/summarize/system.md'', ''Summarize:''),
        (''/patterns/steps/system.md'', ''A {{ext:ok:run:x}} B {{ext:bad:run:y}} C {{input}}''),
        (''/patterns/say/system.md'', ''Say {{ext:ok:run:hi}} to {{input}}.''),
        (''/patterns/role_echo/system.md'', ''{{role}}: {{ext:openai:chat:{{input}}}}''),
        (''/patterns/consensus/system.md'',
           ''A: {{ext:openai:chat:{{input}}}} B: {{ext:ollama:chat:{{input}}}}''),
        (''/patterns/mixed/system.md'', ''{{ext:openai:chat:{{role}} asks {{input}}}}''),
        (''/patterns/p/system.md'', ''default p''),
        (''/custom/p/system.md'', ''custom p'')]
       [(''/patterns'', [''summarize'', ''ai_echo'', ''p'', ''greet'']),
        (''/custom'', [''p'', ''mine''])]"

text \<open>The stub of the spec that echoes its argument, and an extension that always fails.\<close>

definition echo :: dispatcher where
  "echo name operation val = Inr val"


text \<open>An extension set that reports what each extension received, and one in which
  \<^verbatim>\<open>openai\<close> echoes its argument and the others report.\<close>

definition report :: dispatcher where
  "report name operation val = Inr (''<'' @ name @ ''.'' @ operation @ '' got '' @ val @ ''>'')"


text \<open>An extension set in which only \<^verbatim>\<open>ok\<close> works.\<close>

definition flaky :: dispatcher where
  "flaky name operation val = (if name = ''ok'' then Inr ''done'' else Inl ''exit status 1'')"

section \<open>Properties\<close>

subsection \<open>Strings\<close>

lemma HasPrefix_iff: "HasPrefix s p \<longleftrightarrow> (\<exists>r. s = p @ r)"
  unfolding HasPrefix_def
  by (metis append_eq_conv_conj append_take_drop_id)

lemma HasPrefix_append [simp]: "HasPrefix (p @ r) p"
  by (simp add: HasPrefix_def)

lemma HasPrefix_Nil [simp]: "HasPrefix s []"
  by (simp add: HasPrefix_def)

lemma HasPrefix_appendI: "HasPrefix x p \<Longrightarrow> HasPrefix (x @ y) p"
  by (auto simp: HasPrefix_iff)

lemma HasPrefix_hd: "old \<noteq> [] \<Longrightarrow> HasPrefix (c # s) old \<Longrightarrow> c \<in> set old"
  by (cases old) (auto simp: HasPrefix_def)

lemma Contains_iff: "Contains s sub \<longleftrightarrow> (\<exists>a b. s = a @ sub @ b)"
proof (induction s)
  case Nil
  then show ?case by auto
next
  case (Cons c cs)
  show ?case
  proof
    assume "Contains (c # cs) sub"
    then consider "HasPrefix (c # cs) sub" | "Contains cs sub" by auto
    then show "\<exists>a b. c # cs = a @ sub @ b"
    proof cases
      case 1
      then obtain r where "c # cs = sub @ r" by (auto simp: HasPrefix_iff)
      then have "c # cs = [] @ sub @ r" by simp
      then show ?thesis by blast
    next
      case 2
      then obtain a b where "cs = a @ sub @ b" using Cons.IH by blast
      then have "c # cs = (c # a) @ sub @ b" by simp
      then show ?thesis by blast
    qed
  next
    assume "\<exists>a b. c # cs = a @ sub @ b"
    then obtain a b where ab: "c # cs = a @ sub @ b" by blast
    show "Contains (c # cs) sub"
    proof (cases a)
      case Nil
      with ab have "HasPrefix (c # cs) sub" by (simp add: HasPrefix_iff)
      then show ?thesis by simp
    next
      case (Cons x a')
      with ab have "cs = a' @ sub @ b" by simp
      then show ?thesis using Cons.IH by auto
    qed
  qed
qed

lemma Contains_appendI: "Contains b sub \<Longrightarrow> Contains (a @ b @ c) sub"
proof -
  assume "Contains b sub"
  then obtain x y where "b = x @ sub @ y" by (auto simp: Contains_iff)
  then have "a @ b @ c = (a @ x) @ sub @ (y @ c)" by simp
  then show ?thesis unfolding Contains_iff by blast
qed

lemma Contains_suffixI: "Contains b sub \<Longrightarrow> Contains (a @ b) sub"
  using Contains_appendI [of b sub a "[]"] by simp

lemma Contains_prefixI: "Contains a sub \<Longrightarrow> Contains (a @ b) sub"
  using Contains_appendI [of a sub "[]" b] by simp

lemma Contains_self [simp]: "Contains s s"
  using Contains_iff [of s s] by (metis append_Nil append_Nil2)

lemma ReplaceAll_Nil [simp]: "old \<noteq> [] \<Longrightarrow> ReplaceAll [] old new = []"
  by (simp add: ReplaceAll.simps)

lemma ReplaceAll_match:
  "old \<noteq> [] \<Longrightarrow> ReplaceAll (old @ r) old new = new @ ReplaceAll r old new"
  by (subst ReplaceAll.simps) simp

lemma ReplaceAll_skip:
  "old \<noteq> [] \<Longrightarrow> \<not> HasPrefix (c # cs) old \<Longrightarrow>
     ReplaceAll (c # cs) old new = c # ReplaceAll cs old new"
  by (subst ReplaceAll.simps) simp

lemma ReplaceAll_absent:
  "old \<noteq> [] \<Longrightarrow> \<not> Contains s old \<Longrightarrow> ReplaceAll s old new = s"
  by (induction s) (auto simp: ReplaceAll_skip)

lemma ReplaceAll_self: "old \<noteq> [] \<Longrightarrow> ReplaceAll old old new = new"
  using ReplaceAll_match [of old "[]" new] by simp


lemma ReplaceAll_first_occurrence:
  assumes "old \<noteq> []" and "Contains s old"
  shows "\<exists>a b. s = a @ old @ b \<and> \<not> Contains a old \<and>
           ReplaceAll s old new = a @ new @ ReplaceAll b old new"
  using assms(2)
proof (induction s)
  case Nil
  with assms(1) show ?case by simp
next
  case (Cons c cs)
  show ?case
  proof (cases "HasPrefix (c # cs) old")
    case True
    then obtain r where r: "c # cs = old @ r" by (auto simp: HasPrefix_iff)
    then have "c # cs = [] @ old @ r \<and> \<not> Contains [] old \<and>
        ReplaceAll (c # cs) old new = [] @ new @ ReplaceAll r old new"
      using assms(1) by (simp add: ReplaceAll_match)
    then show ?thesis by blast
  next
    case False
    with Cons.prems have "Contains cs old" by simp
    then obtain a b where ab: "cs = a @ old @ b" "\<not> Contains a old"
      "ReplaceAll cs old new = a @ new @ ReplaceAll b old new"
      using Cons.IH by blast
    have "\<not> HasPrefix (c # a) old"
      using False ab(1) HasPrefix_appendI [of "c # a" old "old @ b"] by auto
    then have "\<not> Contains (c # a) old" using ab(2) by simp
    then have "c # cs = (c # a) @ old @ b \<and> \<not> Contains (c # a) old \<and>
        ReplaceAll (c # cs) old new = (c # a) @ new @ ReplaceAll b old new"
      using assms(1) False ab by (simp add: ReplaceAll_skip)
    then show ?thesis by blast
  qed
qed


lemma HasPrefix_across:
  assumes "new \<noteq> []" and "set new \<inter> set old = {}" and "HasPrefix (a @ new @ z) old"
  shows "HasPrefix a old"
proof (rule ccontr)
  assume n: "\<not> HasPrefix a old"
  have t: "take (length old) a @ take (length old - length a) (new @ z) = old"
    using assms(3) by (simp add: HasPrefix_def)
  have "length a < length old"
  proof (rule ccontr)
    assume "\<not> length a < length old"
    then have "take (length old) a = old" using t by simp
    then show False using n by (simp add: HasPrefix_def)
  qed
  then obtain k where k: "length old - length a = Suc k"
    by (metis Suc_diff_Suc)
  obtain n ns where new: "new = n # ns" using assms(1) by (cases new) auto
  have "n \<in> set (take (length old - length a) (new @ z))"
    by (simp add: k new)
  then have "n \<in> set old" using t by (metis Un_iff set_append)
  then show False using assms(2) new by auto
qed




lemma Contains_ReplaceAll:
  assumes "old \<noteq> []" and "Contains s old"
  shows "Contains (ReplaceAll s old new) new"
  using ReplaceAll_first_occurrence [OF assms, of new] by (auto simp: Contains_iff)

lemma ReplaceAll_barrier:
  assumes "old \<noteq> []" and "x \<notin> set old"
  shows "ReplaceAll (u @ x # s) old new = ReplaceAll u old new @ x # ReplaceAll s old new"
proof (induction u rule: length_induct)
  case (1 u)
  note IH = "1.IH" [rule_format]
  show ?case
  proof (cases u)
    case Nil
    have "\<not> HasPrefix (x # s) old" using HasPrefix_hd [OF assms(1)] assms(2) by blast
    then show ?thesis using Nil assms(1) by (simp add: ReplaceAll_skip)
  next
    case (Cons c cs)
    show ?thesis
    proof (cases "HasPrefix (c # cs) old")
      case True
      then obtain r where r: "c # cs = old @ r" by (auto simp: HasPrefix_iff)
      have "length u = length old + length r" using r Cons by (metis length_append)
      then have "length r < length u" using assms(1) by simp
      from IH [OF this] have "ReplaceAll (r @ x # s) old new = ReplaceAll r old new @ x # ReplaceAll s old new" .
      moreover have "u @ x # s = old @ (r @ x # s)" using r Cons by simp
      ultimately show ?thesis using r Cons assms(1) by (simp add: ReplaceAll_match)
    next
      case False
      have "\<not> HasPrefix ((c # cs) @ [x] @ s) old"
        using HasPrefix_across [of "[x]" old "c # cs" s] False assms(2) by auto
      then have n: "\<not> HasPrefix (c # (cs @ x # s)) old" by simp
      have "length cs < length u" using Cons by simp
      from IH [OF this] show ?thesis
        using Cons False n assms(1) by (simp add: ReplaceAll_skip)
    qed
  qed
qed

lemma ReplaceAll_same: "ReplaceAll s old old = s"
proof (cases "old = []")
  case True
  then show ?thesis by (simp add: ReplaceAll.simps)
next
  case False
  show ?thesis
  proof (induction s rule: length_induct)
    case (1 s)
    show ?case
    proof (cases "Contains s old")
      case False
      then show ?thesis using \<open>old \<noteq> []\<close> by (simp add: ReplaceAll_absent)
    next
      case True
      then obtain a b where ab: "s = a @ old @ b"
        "ReplaceAll s old old = a @ old @ ReplaceAll b old old"
        using ReplaceAll_first_occurrence [OF \<open>old \<noteq> []\<close>] by blast
      have "length b < length s" using ab(1) \<open>old \<noteq> []\<close> by simp
      then have "ReplaceAll b old old = b" using 1 by blast
      then show ?thesis using ab by simp
    qed
  qed
qed

lemma HasSuffix_iff: "HasSuffix s p \<longleftrightarrow> (\<exists>r. s = r @ p)"
  unfolding HasSuffix_def
  by (metis append_eq_conv_conj append_take_drop_id diff_add_inverse2 le_add2 length_append)

lemma withSentinel_after_newline:
  assumes "\<not> Contains u inputToken"
  shows "ReplaceAll (u @ newline @ inputToken) inputToken inputSentinel = u @ newline @ inputSentinel"
proof -
  have t: "inputToken \<noteq> []" by (simp add: inputToken_def)
  have n: "CHR 0x0A \<notin> set inputToken" by (simp add: inputToken_def)
  have "ReplaceAll (u @ CHR 0x0A # inputToken) inputToken inputSentinel =
      ReplaceAll u inputToken inputSentinel @ CHR 0x0A # ReplaceAll inputToken inputToken inputSentinel"
    using t n by (rule ReplaceAll_barrier)
  then show ?thesis
    using assms t by (simp add: ReplaceAll_absent ReplaceAll_self newline_def)
qed

lemma withSentinel_ensured:
  assumes "\<not> Contains t inputToken"
  shows "\<exists>u. ReplaceAll (ensuredText t) inputToken inputSentinel = u @ inputSentinel"
proof (cases "HasSuffix t newline")
  case True
  then obtain u where u: "t = u @ newline" by (auto simp: HasSuffix_iff)
  have "\<not> Contains u inputToken" using assms u Contains_prefixI by blast
  then have "ReplaceAll (u @ newline @ inputToken) inputToken inputSentinel = u @ newline @ inputSentinel"
    by (rule withSentinel_after_newline)
  then have "ReplaceAll (ensuredText t) inputToken inputSentinel = (u @ newline) @ inputSentinel"
    using True u assms by (simp add: ensuredText_def)
  then show ?thesis by blast
next
  case False
  have "ReplaceAll (t @ newline @ inputToken) inputToken inputSentinel = t @ newline @ inputSentinel"
    using assms by (rule withSentinel_after_newline)
  then have "ReplaceAll (ensuredText t) inputToken inputSentinel = (t @ newline) @ inputSentinel"
    using False assms by (simp add: ensuredText_def)
  then show ?thesis by blast
qed

subsection \<open>The expander\<close>

lemma takeWhile_dropWhile_shape:
  "HasPrefix (dropWhile notBrace t) ''}}'' \<Longrightarrow>
     t = takeWhile notBrace t @ ''}}'' @ drop 2 (dropWhile notBrace t)"
proof -
  assume "HasPrefix (dropWhile notBrace t) ''}}''"
  then obtain r where "dropWhile notBrace t = ''}}'' @ r" by (auto simp: HasPrefix_iff)
  then have "dropWhile notBrace t = ''}}'' @ drop 2 (dropWhile notBrace t)" by simp
  then show ?thesis using takeWhile_dropWhile_id [of notBrace t] by metis
qed

lemma holeAt_shape:
  assumes "holeAt s = Some (body, rest)"
  shows "s = ''{{'' @ body @ ''}}'' @ rest"
proof -
  from assms have p: "HasPrefix s ''{{''" and r: "HasPrefix (dropWhile notBrace (drop 2 s)) ''}}''"
    and b: "body = takeWhile notBrace (drop 2 s)" and t: "rest = drop 2 (dropWhile notBrace (drop 2 s))"
    by (auto simp: holeAt_def Let_def split: if_splits)
  from p obtain u where u: "s = ''{{'' @ u" by (auto simp: HasPrefix_iff)
  then have "drop 2 s = u" by simp
  then have "u = body @ ''}}'' @ rest"
    using takeWhile_dropWhile_shape [of "drop 2 s"] r b t by simp
  then show ?thesis using u by simp
qed

lemma innermost_shape:
  "innermost s = Some (pre, body, rest) \<Longrightarrow> s = pre @ ''{{'' @ body @ ''}}'' @ rest"
proof (induction s arbitrary: pre)
  case Nil
  then show ?case by simp
next
  case (Cons c cs)
  show ?case
  proof (cases "holeAt (c # cs)")
    case (Some br)
    then obtain b r where br: "holeAt (c # cs) = Some (b, r)" by (cases br) auto
    then have "pre = []" "body = b" "rest = r" using Cons.prems by simp_all
    then show ?thesis using holeAt_shape [OF br] by simp
  next
    case None
    then obtain pre' where p: "innermost cs = Some (pre', body, rest)" "pre = c # pre'"
      using Cons.prems by auto
    then show ?thesis using Cons.IH [OF p(1)] by simp
  qed
qed

lemma holeAt_not_open: "c \<noteq> CHR ''{'' \<Longrightarrow> holeAt (c # cs) = None"
  by (simp add: holeAt_def HasPrefix_def)

lemma innermost_literal_prefix:
  "CHR ''{'' \<notin> set pre \<Longrightarrow>
     innermost (pre @ s) = map_option (\<lambda>(a, body, rest). (pre @ a, body, rest)) (innermost s)"
proof (induction pre)
  case Nil
  show ?case by (cases "innermost s") auto
next
  case (Cons c pre)
  have h: "holeAt (c # pre @ s) = None" using Cons.prems by (intro holeAt_not_open) auto
  have "innermost ((c # pre) @ s) =
      map_option (\<lambda>(a, body, rest). (c # a, body, rest)) (innermost (pre @ s))"
    by (simp add: h)
  also have "\<dots> = map_option (\<lambda>(a, body, rest). ((c # pre) @ a, body, rest)) (innermost s)"
    using Cons by (cases "innermost s") auto
  finally show ?case .
qed



lemma holeAt_literal:
  assumes "CHR ''{'' \<notin> set body" and "CHR ''}'' \<notin> set body"
  shows "holeAt (''{{'' @ body @ ''}}'' @ rest) = Some (body, rest)"
proof -
  have all: "\<And>c. c \<in> set body \<Longrightarrow> notBrace c" using assms by (auto simp: notBrace_def)
  have n: "\<not> notBrace (CHR ''}'')" by (simp add: notBrace_def)
  have t: "takeWhile notBrace (body @ CHR ''}'' # CHR ''}'' # rest) = body"
    using all n by simp
  have d: "dropWhile notBrace (body @ CHR ''}'' # CHR ''}'' # rest) = CHR ''}'' # CHR ''}'' # rest"
    using all n by simp
  show ?thesis
    by (simp add: holeAt_def HasPrefix_def Let_def t d)
qed

lemma innermost_call:
  assumes "CHR ''{'' \<notin> set pre" and "CHR ''{'' \<notin> set body" and "CHR ''}'' \<notin> set body"
  shows "innermost (pre @ ''{{'' @ body @ ''}}'' @ rest) = Some (pre, body, rest)"
proof -
  have "innermost (''{{'' @ body @ ''}}'' @ rest) = Some ([], body, rest)"
    using holeAt_literal [OF assms(2,3), of rest] by simp
  then show ?thesis
    using innermost_literal_prefix [OF assms(1), of "''{{'' @ body @ ''}}'' @ rest"] by simp
qed

lemma cut_shape: "cut s = Some (a, b) \<Longrightarrow> s = a @ '':'' @ b \<and> CHR '':'' \<notin> set a"
  by (induction s arbitrary: a b) (auto split: if_splits)

lemma parseExt_shape:
  "parseExt body = Some (name, operation, val) \<Longrightarrow>
     body = ''ext:'' @ name @ '':'' @ operation @ '':'' @ val \<and>
     CHR '':'' \<notin> set name \<and> CHR '':'' \<notin> set operation"
  unfolding parseExt_def
  by (auto split: if_splits option.splits dest!: cut_shape simp: HasPrefix_iff)

lemma lookup_other: "name \<noteq> ''input'' \<Longrightarrow> lookup vars i1 name = lookup vars i2 name"
  by (simp add: lookup_def)

lemma cut_literal: "CHR '':'' \<notin> set a \<Longrightarrow> cut (a @ CHR '':'' # b) = Some (a, b)"
  by (induction a) auto

lemma parseExt_extBody:
  "plainName name \<Longrightarrow> plainName operation \<Longrightarrow>
     parseExt (extBody name operation val) = Some (name, operation, val)"
  by (simp add: parseExt_def extBody_def HasPrefix_def cut_literal plainName_def)

lemma sentinel_plain: "CHR ''{'' \<notin> set inputSentinel" "CHR ''}'' \<notin> set inputSentinel"
  by (simp_all add: inputSentinel_def)


lemma closer_before_suffix:
  assumes "u @ ''}}'' @ rest = a @ b" and "CHR ''}'' \<notin> set b"
  shows "\<exists>rest'. rest = rest' @ b \<and> a = u @ ''}}'' @ rest'"
proof -
  from assms(1) have "(u @ ''}}'') @ rest = a @ b" by simp
  then obtain w where w: "(u @ ''}}'' = a @ w \<and> w @ rest = b) \<or> ((u @ ''}}'') @ w = a \<and> rest = w @ b)"
    unfolding append_eq_append_conv2 by blast
  show ?thesis
  proof (cases "w = []")
    case True
    with w show ?thesis by auto
  next
    case False
    show ?thesis
      using w
    proof
      assume h: "u @ ''}}'' = a @ w \<and> w @ rest = b"
      then have "last (u @ ''}}'') = last w" using False by simp
      then have "CHR ''}'' = last w" by simp
      then have "CHR ''}'' \<in> set w" using False last_in_set by metis
      then have "CHR ''}'' \<in> set b" using h by auto
      then show ?thesis using assms(2) by simp
    next
      assume "(u @ ''}}'') @ w = a \<and> rest = w @ b"
      then show ?thesis by auto
    qed
  qed
qed






lemma expand_keeps_literal_suffix:
  assumes "CHR ''}'' \<notin> set b"
  shows "snd (expand fuel ext vars input (u @ b)) = Inr r \<Longrightarrow> \<exists>r'. r = r' @ b"
proof (induction fuel arbitrary: u)
  case 0
  then show ?case by (auto split: option.splits)
next
  case (Suc fuel)
  show ?case
  proof (cases "innermost (u @ b)")
    case None
    then show ?thesis using Suc.prems by auto
  next
    case (Some h)
    obtain pre body post where h: "h = (pre, body, post)" by (cases h)
    have "(pre @ ''{{'' @ body) @ ''}}'' @ post = u @ b"
      using innermost_shape [of "u @ b" pre body post] Some h by simp
    from closer_before_suffix [OF this assms]
    obtain post' where post': "post = post' @ b" by blast
    obtain ev res where res: "resolve ext vars input body = (ev, res)"
      by (cases "resolve ext vars input body")
    show ?thesis
    proof (cases res)
      case (Inl err)
      then show ?thesis using Suc.prems Some h res by simp
    next
      case (Inr repl)
      have "snd (expand fuel ext vars input ((pre @ repl @ post') @ b)) = Inr r"
        using Suc.prems Some h res Inr post' by (simp split: prod.splits)
      then show ?thesis by (rule Suc.IH)
    qed
  qed
qed

lemma received_input:
  "Ext name operation arg received \<in> set (fst (expand fuel ext vars input s)) \<Longrightarrow>
     received = ReplaceAll arg inputSentinel input"
proof (induction fuel arbitrary: s)
  case 0
  then show ?case by (auto split: option.splits)
next
  case (Suc fuel)
  show ?case
  proof (cases "innermost s")
    case None
    then show ?thesis using Suc.prems by simp
  next
    case (Some h)
    obtain pre body post where h: "h = (pre, body, post)" by (cases h)
    obtain ev res where res: "resolve ext vars input body = (ev, res)"
      by (cases "resolve ext vars input body")
    have ev: "ev = Ext name operation arg received \<Longrightarrow> received = ReplaceAll arg inputSentinel input"
      using res by (auto simp: resolve_def Let_def split: option.splits)
    show ?thesis
    proof (cases res)
      case (Inl err)
      then show ?thesis using Suc.prems Some h res ev by simp
    next
      case (Inr repl)
      then have "Ext name operation arg received = ev \<or>
          Ext name operation arg received \<in> set (fst (expand fuel ext vars input (pre @ repl @ post)))"
        using Suc.prems Some h res by (auto split: prod.splits)
      then show ?thesis using ev Suc.IH by auto
    qed
  qed
qed



lemma expand_next_call:
  assumes "innermost s = Some (pre, extBody name operation arg, post)"
    and "plainName name" and "plainName operation"
  shows "snd (expand (Suc fuel) ext vars input s) =
     (case ext name operation (ReplaceAll arg inputSentinel input) of
        Inl err \<Rightarrow> Inl (''extension '' @ name @ '' '' @ operation @ '': '' @ err)
      | Inr out \<Rightarrow> snd (expand fuel ext vars input (pre @ out @ post)))"
  using assms
  by (simp add: resolve_def parseExt_extBody Let_def split: sum.splits prod.splits)

subsection \<open>Resolution and loading\<close>

lemma ensureInput_Some:
  "ensureInput (Some p) = Returns (p\<lparr>Pattern := ensuredText (Pattern p)\<rparr>)"
  by (simp add: ensuredText_def)

lemma applyVariables_Some:
  "applyVariables tmpl (Some p) vars input =
     (case tmpl (ReplaceAll (ensuredText (Pattern p)) inputToken inputSentinel) vars input of
        Inl err \<Rightarrow> Returns (p\<lparr>Pattern := ensuredText (Pattern p)\<rparr>, Some err)
      | Inr processed \<Rightarrow>
          Returns (p\<lparr>Pattern := ReplaceAll processed inputSentinel input\<rparr>, None))"
  by (simp add: applyVariables_def ensureInput_Some del: ensureInput.simps split: sum.splits)

lemma GetApplyVariables_loaded:
  assumes "loadPattern e ent source = (Some p, None)"
  shows "GetApplyVariables tmpl e ent source vars input =
     (case tmpl (ReplaceAll (ensuredText (Pattern p)) inputToken inputSentinel) vars input of
        Inl err \<Rightarrow> Returns (Some (p\<lparr>Pattern := ensuredText (Pattern p)\<rparr>), Some err)
      | Inr processed \<Rightarrow>
          Returns (Some (p\<lparr>Pattern := ReplaceAll processed inputSentinel input\<rparr>), None))"
  by (simp add: GetApplyVariables_def assms applyVariables_Some split: sum.splits)

lemma GetWithoutVariables_loaded:
  assumes "loadPattern e ent source = (Some p, None)"
  shows "GetWithoutVariables e ent source input =
     Returns (Some (p\<lparr>Pattern := ReplaceAll (ensuredText (Pattern p)) inputToken input\<rparr>), None)"
  by (simp add: GetWithoutVariables_def assms applyInput_def ensureInput_Some
      del: ensureInput.simps)

lemma Contains_ensuredText: "Contains (ensuredText t) inputToken"
proof (cases "Contains t inputToken")
  case True
  then show ?thesis by (simp add: ensuredText_def)
next
  case False
  have "Contains ((if HasSuffix t newline then t else t @ newline) @ inputToken) inputToken"
    by (rule Contains_suffixI) simp
  then show ?thesis using False by (simp add: ensuredText_def)
qed



lemma expand_after:
  "after n ext vars input s = Some s' \<Longrightarrow>
     snd (expand (n + fuel) ext vars input s) = snd (expand fuel ext vars input s')"
proof (induction n arbitrary: s)
  case 0
  then show ?case by simp
next
  case (Suc n)
  from Suc.prems obtain pre body post where i: "innermost s = Some (pre, body, post)"
    by (cases "innermost s") auto
  obtain ev res where res: "resolve ext vars input body = (ev, res)"
    by (cases "resolve ext vars input body")
  from Suc.prems i res obtain repl where r: "res = Inr repl"
    "after n ext vars input (pre @ repl @ post) = Some s'"
    by (cases res) auto
  have "snd (expand (n + fuel) ext vars input (pre @ repl @ post)) =
      snd (expand fuel ext vars input s')"
    using r(2) by (rule Suc.IH)
  then show ?case using i res r(1) by (auto split: prod.splits)
qed

lemma GetApplyVariables_sentinelText:
  assumes "loadPattern e ent source = (Some p, None)"
  shows "GetApplyVariables tmpl e ent source vars input =
     (case tmpl (sentinelText (Pattern p)) vars input of
        Inl err \<Rightarrow> Returns (Some (p\<lparr>Pattern := ensuredText (Pattern p)\<rparr>), Some err)
      | Inr processed \<Rightarrow>
          Returns (Some (p\<lparr>Pattern := ReplaceAll processed inputSentinel input\<rparr>), None))"
  unfolding sentinelText_def by (rule GetApplyVariables_loaded [OF assms])

text \<open>C1.  For every pattern, \<open>GetApplyVariables\<close> hands the expander the sentinel-bearing text
  together with the real input (first equation, for any expander).  With the expander of the
  spec, every extension call of the run receives its argument with the real input in the
  place of the sentinel, the input itself when the argument is the input placeholder; and
  whenever the run has reached an extension call as the next placeholder, after any number
  of placeholders resolved before, the result is that of the dispatcher applied to the name,
  the operation and this value, neither the empty string nor the sentinel.\<close>

theorem extension_receives_input:
  assumes "loadPattern e ent source = (Some p, None)"
  shows "GetApplyVariables tmpl e ent source vars input =
     (case tmpl (sentinelText (Pattern p)) vars input of
        Inl err \<Rightarrow> Returns (Some (p\<lparr>Pattern := ensuredText (Pattern p)\<rparr>), Some err)
      | Inr processed \<Rightarrow>
          Returns (Some (p\<lparr>Pattern := ReplaceAll processed inputSentinel input\<rparr>), None)) \<and>
   (\<forall>name operation arg received.
      Ext name operation arg received
        \<in> set (fst (expand fuel ext vars input (sentinelText (Pattern p)))) \<longrightarrow>
      received = ReplaceAll arg inputSentinel input \<and>
      (arg = inputSentinel \<longrightarrow> received = input)) \<and>
   (\<forall>n s pre name operation arg post.
      after n ext vars input (sentinelText (Pattern p)) = Some s \<and>
      innermost s = Some (pre, extBody name operation arg, post) \<and>
      plainName name \<and> plainName operation \<longrightarrow>
      GetApplyVariables (ApplyTemplate (n + Suc fuel) ext) e ent source vars input =
        (case ext name operation (ReplaceAll arg inputSentinel input) of
           Inl err \<Rightarrow>
             Returns (Some (p\<lparr>Pattern := ensuredText (Pattern p)\<rparr>),
                      Some (''extension '' @ name @ '' '' @ operation @ '': '' @ err))
         | Inr out \<Rightarrow>
             (case ApplyTemplate fuel ext (pre @ out @ post) vars input of
                Inl err \<Rightarrow> Returns (Some (p\<lparr>Pattern := ensuredText (Pattern p)\<rparr>), Some err)
              | Inr processed \<Rightarrow>
                  Returns (Some (p\<lparr>Pattern := ReplaceAll processed inputSentinel input\<rparr>),
                           None))))"
proof -
  note 1 = GetApplyVariables_sentinelText [OF assms, of tmpl vars input]
  have 2: "received = ReplaceAll arg inputSentinel input \<and>
      (arg = inputSentinel \<longrightarrow> received = input)"
    if "Ext name operation arg received
        \<in> set (fst (expand fuel ext vars input (sentinelText (Pattern p))))"
    for name operation arg received
    using received_input [OF that] by (simp add: ReplaceAll_self inputSentinel_def)
  have 3: "GetApplyVariables (ApplyTemplate (n + Suc fuel) ext) e ent source vars input =
        (case ext name operation (ReplaceAll arg inputSentinel input) of
           Inl err \<Rightarrow>
             Returns (Some (p\<lparr>Pattern := ensuredText (Pattern p)\<rparr>),
                      Some (''extension '' @ name @ '' '' @ operation @ '': '' @ err))
         | Inr out \<Rightarrow>
             (case ApplyTemplate fuel ext (pre @ out @ post) vars input of
                Inl err \<Rightarrow> Returns (Some (p\<lparr>Pattern := ensuredText (Pattern p)\<rparr>), Some err)
              | Inr processed \<Rightarrow>
                  Returns (Some (p\<lparr>Pattern := ReplaceAll processed inputSentinel input\<rparr>),
                           None)))"
    if a: "after n ext vars input (sentinelText (Pattern p)) = Some s"
      and i: "innermost s = Some (pre, extBody name operation arg, post)"
      and pn: "plainName name" "plainName operation"
    for n s pre name operation arg post
  proof -
    have "ApplyTemplate (n + Suc fuel) ext (sentinelText (Pattern p)) vars input =
        snd (expand (Suc fuel) ext vars input s)"
      unfolding ApplyTemplate_def using a by (rule expand_after)
    also have "\<dots> =
        (case ext name operation (ReplaceAll arg inputSentinel input) of
           Inl err \<Rightarrow> Inl (''extension '' @ name @ '' '' @ operation @ '': '' @ err)
         | Inr out \<Rightarrow> ApplyTemplate fuel ext (pre @ out @ post) vars input)"
      unfolding ApplyTemplate_def using i pn by (rule expand_next_call)
    finally show ?thesis
      unfolding GetApplyVariables_sentinelText [OF assms]
      by (simp split: sum.splits)
  qed
  show ?thesis using 1 2 3 by blast
qed

lemmas load_simps = loadPattern_def isFilePath_def getFromDB_def getFromFile_def exampleDisk_def
  disk_def store_def HasPrefix_def backslash_def

lemmas string_simps = ReplaceAll.simps HasPrefix_def HasSuffix_def inputToken_def
  inputSentinel_def newline_def

lemmas expand_simps = ApplyTemplate_def sentinelText_def ensuredText_def holeAt_def notBrace_def
  parseExt_def lookup_def resolve_def Let_def

lemma load_ai_echo:
  "loadPattern exampleDisk store ''ai_echo'' =
     (Some \<lparr>Name = ''ai_echo'', Description = [], Pattern = ''{{ext:openai:chat:{{input}}}}''\<rparr>,
      None)"
  by (simp add: load_simps)

lemma load_role_echo:
  "loadPattern exampleDisk store ''role_echo'' =
     (Some \<lparr>Name = ''role_echo'', Description = [],
            Pattern = ''{{role}}: {{ext:openai:chat:{{input}}}}''\<rparr>, None)"
  by (simp add: load_simps)

lemma load_consensus:
  "loadPattern exampleDisk store ''consensus'' =
     (Some \<lparr>Name = ''consensus'', Description = [],
            Pattern = ''A: {{ext:openai:chat:{{input}}}} B: {{ext:ollama:chat:{{input}}}}''\<rparr>,
      None)"
  by (simp add: load_simps)

lemma load_mixed:
  "loadPattern exampleDisk store ''mixed'' =
     (Some \<lparr>Name = ''mixed'', Description = [],
            Pattern = ''{{ext:openai:chat:{{role}} asks {{input}}}}''\<rparr>, None)"
  by (simp add: load_simps)

lemma plain_chat: "plainName ''openai''" "plainName ''ollama''" "plainName ''chat''"
  by (simp_all add: plainName_def)

theorem extension_receives_input_witness:
  "loadPattern exampleDisk store ''role_echo'' =
     (Some \<lparr>Name = ''role_echo'', Description = [],
            Pattern = ''{{role}}: {{ext:openai:chat:{{input}}}}''\<rparr>, None) \<and>
   after (Suc 0) report [''role'' \<mapsto> ''sys''] ''hello''
       (sentinelText ''{{role}}: {{ext:openai:chat:{{input}}}}'') =
     Some (''sys: '' @ extCall ''openai'' ''chat'' inputSentinel) \<and>
   innermost (''sys: '' @ extCall ''openai'' ''chat'' inputSentinel) =
     Some (''sys: '', extBody ''openai'' ''chat'' inputSentinel, []) \<and>
   plainName ''openai'' \<and> plainName ''chat'' \<and>
   GetApplyVariables (ApplyTemplate 2 report) exampleDisk store ''role_echo''
       [''role'' \<mapsto> ''sys''] ''hello'' =
     Returns (Some \<lparr>Name = ''role_echo'', Description = [],
                     Pattern = ''sys: <openai.chat got hello>''\<rparr>, None) \<and>
   GetApplyVariables (ApplyTemplate 2 report) exampleDisk store ''consensus'' Map.empty ''hello'' =
     Returns (Some \<lparr>Name = ''consensus'', Description = [],
                     Pattern = ''A: <openai.chat got hello> B: <ollama.chat got hello>''\<rparr>,
              None) \<and>
   GetApplyVariables (ApplyTemplate 2 report) exampleDisk store ''mixed''
       [''role'' \<mapsto> ''sys''] ''hello'' =
     Returns (Some \<lparr>Name = ''mixed'', Description = [],
                     Pattern = ''<openai.chat got sys asks hello>''\<rparr>, None) \<and>
   GetApplyVariables (ApplyTemplate 1 echo) exampleDisk store ''ai_echo'' Map.empty ''hello'' =
     Returns (Some \<lparr>Name = ''ai_echo'', Description = [], Pattern = ''hello''\<rparr>, None)"
proof -
  have a1: "after (Suc 0) report [''role'' \<mapsto> ''sys''] ''hello''
       (sentinelText (Pattern \<lparr>Name = ''role_echo'', Description = [],
            Pattern = ''{{role}}: {{ext:openai:chat:{{input}}}}''\<rparr>)) =
     Some (''sys: '' @ extCall ''openai'' ''chat'' inputSentinel)"
    by (simp add: expand_simps string_simps extCall_def extBody_def)
  have i1: "innermost (''sys: '' @ extCall ''openai'' ''chat'' inputSentinel) =
     Some (''sys: '', extBody ''openai'' ''chat'' inputSentinel, [])"
    using innermost_call [of "''sys: ''" "extBody ''openai'' ''chat'' inputSentinel" "[]"]
    by (simp add: extCall_def extBody_def inputSentinel_def)
  have 1: "GetApplyVariables (ApplyTemplate 2 report) exampleDisk store ''role_echo''
       [''role'' \<mapsto> ''sys''] ''hello'' =
     Returns (Some \<lparr>Name = ''role_echo'', Description = [],
                     Pattern = ''sys: <openai.chat got hello>''\<rparr>, None)"
    using extension_receives_input [where fuel = 0, OF load_role_echo, THEN conjunct2, THEN conjunct2,
        rule_format, OF conjI [OF a1 conjI [OF i1 conjI [OF plain_chat(1) plain_chat(3)]]]]
    by (simp add: numeral_2_eq_2 expand_simps string_simps report_def)
  have a2: "after (Suc 0) report Map.empty ''hello''
       (sentinelText (Pattern \<lparr>Name = ''consensus'', Description = [],
            Pattern = ''A: {{ext:openai:chat:{{input}}}} B: {{ext:ollama:chat:{{input}}}}''\<rparr>)) =
     Some (''A: <openai.chat got hello> B: '' @ extCall ''ollama'' ''chat'' inputSentinel)"
    by (simp add: expand_simps string_simps extCall_def extBody_def report_def)
  have i2: "innermost (''A: <openai.chat got hello> B: '' @ extCall ''ollama'' ''chat'' inputSentinel) =
     Some (''A: <openai.chat got hello> B: '', extBody ''ollama'' ''chat'' inputSentinel, [])"
    using innermost_call [of "''A: <openai.chat got hello> B: ''"
        "extBody ''ollama'' ''chat'' inputSentinel" "[]"]
    by (simp add: extCall_def extBody_def inputSentinel_def)
  have 2: "GetApplyVariables (ApplyTemplate 2 report) exampleDisk store ''consensus'' Map.empty
       ''hello'' =
     Returns (Some \<lparr>Name = ''consensus'', Description = [],
                     Pattern = ''A: <openai.chat got hello> B: <ollama.chat got hello>''\<rparr>,
              None)"
    using extension_receives_input [where fuel = 0, OF load_consensus, THEN conjunct2, THEN conjunct2,
        rule_format, OF conjI [OF a2 conjI [OF i2 conjI [OF plain_chat(2) plain_chat(3)]]]]
    by (simp add: numeral_2_eq_2 expand_simps string_simps report_def)
  have a3: "after (Suc 0) report [''role'' \<mapsto> ''sys''] ''hello''
       (sentinelText (Pattern \<lparr>Name = ''mixed'', Description = [],
            Pattern = ''{{ext:openai:chat:{{role}} asks {{input}}}}''\<rparr>)) =
     Some (extCall ''openai'' ''chat'' (''sys asks '' @ inputSentinel))"
    by (simp add: expand_simps string_simps extCall_def extBody_def)
  have i3: "innermost (extCall ''openai'' ''chat'' (''sys asks '' @ inputSentinel)) =
     Some ([], extBody ''openai'' ''chat'' (''sys asks '' @ inputSentinel), [])"
    using innermost_call [of "[]" "extBody ''openai'' ''chat'' (''sys asks '' @ inputSentinel)" "[]"]
    by (simp add: extCall_def extBody_def inputSentinel_def)
  have 3: "GetApplyVariables (ApplyTemplate 2 report) exampleDisk store ''mixed''
       [''role'' \<mapsto> ''sys''] ''hello'' =
     Returns (Some \<lparr>Name = ''mixed'', Description = [],
                     Pattern = ''<openai.chat got sys asks hello>''\<rparr>, None)"
    using extension_receives_input [where fuel = 0, OF load_mixed, THEN conjunct2, THEN conjunct2,
        rule_format, OF conjI [OF a3 conjI [OF i3 conjI [OF plain_chat(1) plain_chat(3)]]]]
    by (simp add: numeral_2_eq_2 expand_simps string_simps report_def)
  have 4: "GetApplyVariables (ApplyTemplate 1 echo) exampleDisk store ''ai_echo'' Map.empty ''hello'' =
     Returns (Some \<lparr>Name = ''ai_echo'', Description = [], Pattern = ''hello''\<rparr>, None)"
    using extension_receives_input [OF load_ai_echo, THEN conjunct1, of "ApplyTemplate 1 echo"
        Map.empty "''hello''"]
    by (simp add: expand_simps string_simps echo_def)
  show ?thesis
    using load_role_echo a1 i1 plain_chat 1 2 3 4 by simp
qed

lemma pieces_Nil: "pieces [] tok = [[]]"
  by (simp add: pieces.simps)

lemma pieces_match: "tok \<noteq> [] \<Longrightarrow> pieces (tok @ r) tok = [] # pieces r tok"
  by (subst pieces.simps) simp

lemma pieces_skip:
  "tok \<noteq> [] \<Longrightarrow> \<not> HasPrefix (c # cs) tok \<Longrightarrow>
     pieces (c # cs) tok = (case pieces cs tok of [] \<Rightarrow> [[c]] | seg # segs \<Rightarrow> (c # seg) # segs)"
  by (subst pieces.simps) (simp split: list.splits)

lemma pieces_not_Nil: "pieces s tok \<noteq> []"
proof (cases "tok = []")
  case True
  then show ?thesis by (simp add: pieces.simps)
next
  case False
  show ?thesis
  proof (induction s rule: length_induct)
    case (1 s)
    show ?case
    proof (cases s)
      case Nil
      then show ?thesis by (simp add: pieces_Nil)
    next
      case (Cons c cs)
      show ?thesis
      proof (cases "HasPrefix (c # cs) tok")
        case True
        then obtain r where "c # cs = tok @ r" by (auto simp: HasPrefix_iff)
        then show ?thesis using Cons False by (simp add: pieces_match)
      next
        case n: False
        then show ?thesis using Cons False by (simp add: pieces_skip split: list.splits)
      qed
    qed
  qed
qed

lemma joinWith_Cons_head:
  "joinWith sep ((c # seg) # segs) = c # joinWith sep (seg # segs)"
  by (cases segs) simp_all

lemma joinWith_Nil_head: "segs \<noteq> [] \<Longrightarrow> joinWith sep ([] # segs) = sep @ joinWith sep segs"
  by (cases segs) simp_all

lemma pieces_properties:
  assumes "tok \<noteq> []"
  shows "joinWith tok (pieces s tok) = s \<and>
         ReplaceAll s tok new = joinWith new (pieces s tok) \<and>
         (\<forall>seg \<in> set (pieces s tok). \<not> Contains seg tok)"
proof (induction s rule: length_induct)
  case (1 s)
  note IH = "1.IH" [rule_format]
  show ?case
  proof (cases s)
    case Nil
    then show ?thesis using assms by (simp add: pieces_Nil)
  next
    case (Cons c cs)
    show ?thesis
    proof (cases "HasPrefix (c # cs) tok")
      case True
      then obtain r where r: "c # cs = tok @ r" by (auto simp: HasPrefix_iff)
      have "length s = length tok + length r" using r Cons by (metis length_append)
      then have "length r < length s" using assms by simp
      note ih = IH [OF this]
      have s: "s = tok @ r" using r Cons by simp
      show ?thesis
        unfolding s using ih assms
        by (simp add: pieces_match joinWith_Nil_head pieces_not_Nil ReplaceAll_match)
    next
      case False
      have "length cs < length s" using Cons by simp
      note ih = IH [OF this]
      obtain seg segs where ps: "pieces cs tok = seg # segs"
        using pieces_not_Nil [of cs tok] by (cases "pieces cs tok") auto
      have p: "pieces (c # cs) tok = (c # seg) # segs"
        using False assms ps by (simp add: pieces_skip)
      have j: "joinWith tok (pieces (c # cs) tok) = c # cs"
        using ih by (simp add: p ps joinWith_Cons_head)
      have rp: "ReplaceAll (c # cs) tok new = joinWith new (pieces (c # cs) tok)"
        using ih False assms by (simp add: p ps joinWith_Cons_head ReplaceAll_skip)
      have "\<not> HasPrefix (c # seg) tok"
      proof
        assume h: "HasPrefix (c # seg) tok"
        obtain z where "cs = seg @ z"
        proof (cases segs)
          case Nil
          then have "cs = seg @ []" using ih ps by simp
          then show ?thesis using that by blast
        next
          case (Cons y ys)
          then have "cs = seg @ (tok @ joinWith tok (y # ys))" using ih ps by simp
          then show ?thesis using that by blast
        qed
        then have "HasPrefix (c # cs) tok"
          using HasPrefix_appendI [OF h, of z] by simp
        then show False using False by simp
      qed
      then have "\<not> Contains (c # seg) tok" using ih ps by simp
      then have "\<forall>seg \<in> set (pieces (c # cs) tok). \<not> Contains seg tok"
        using ih ps by (simp add: p)
      then show ?thesis unfolding Cons using j rp by blast
    qed
  qed
qed




lemma load_greet:
  "loadPattern exampleDisk store ''greet'' =
     (Some \<lparr>Name = ''greet'', Description = [], Pattern = ''Name: {{name}}, Input: {{input}}''\<rparr>,
      None)"
  by (simp add: load_simps)





text \<open>C5.  For a pattern text without the input placeholder, \<open>ensureInput\<close> appends the
  placeholder on a line of its own (adding a line break unless the text ends with one), and
  the final text contains the input: always for \<open>GetWithoutVariables\<close>, and for
  \<open>GetApplyVariables\<close> whenever the expansion succeeds.\<close>

theorem input_always_present:
  assumes "loadPattern e ent source = (Some p, None)"
    and "\<not> Contains (Pattern p) inputToken"
  shows "ensureInput (Some p) =
           Returns (p\<lparr>Pattern := (if HasSuffix (Pattern p) newline then Pattern p
                                    else Pattern p @ newline) @ inputToken\<rparr>) \<and>
         (\<exists>p'. GetWithoutVariables e ent source input = Returns (Some p', None) \<and>
                Contains (Pattern p') input) \<and>
         (\<forall>p'. GetApplyVariables (ApplyTemplate fuel ext) e ent source vars input =
                  Returns (Some p', None) \<longrightarrow> Contains (Pattern p') input)"
proof -
  have t: "inputToken \<noteq> []" by (simp add: inputToken_def)
  have s: "inputSentinel \<noteq> []" by (simp add: inputSentinel_def)
  have 1: "ensureInput (Some p) =
           Returns (p\<lparr>Pattern := (if HasSuffix (Pattern p) newline then Pattern p
                                    else Pattern p @ newline) @ inputToken\<rparr>)"
    using assms(2) by simp
  have "Contains (ReplaceAll (ensuredText (Pattern p)) inputToken input) input"
    using t Contains_ensuredText by (rule Contains_ReplaceAll)
  then have 2: "\<exists>p'. GetWithoutVariables e ent source input = Returns (Some p', None) \<and>
                Contains (Pattern p') input"
    unfolding GetWithoutVariables_loaded [OF assms(1)] by simp
  have 3: "Contains (Pattern p') input"
    if "GetApplyVariables (ApplyTemplate fuel ext) e ent source vars input = Returns (Some p', None)"
    for p'
  proof -
    obtain u where u: "ReplaceAll (ensuredText (Pattern p)) inputToken inputSentinel = u @ inputSentinel"
      using withSentinel_ensured [OF assms(2)] by blast
    from that obtain processed where
      pr: "snd (expand fuel ext vars input (u @ inputSentinel)) = Inr processed"
        "Pattern p' = ReplaceAll processed inputSentinel input"
      unfolding GetApplyVariables_loaded [OF assms(1)] u ApplyTemplate_def
      by (auto split: sum.splits)
    obtain r' where "processed = r' @ inputSentinel"
      using expand_keeps_literal_suffix [OF sentinel_plain(2) pr(1)] by blast
    then have "Contains processed inputSentinel"
      using Contains_suffixI [of inputSentinel inputSentinel r'] by simp
    then show ?thesis
      unfolding pr(2) using s by (intro Contains_ReplaceAll)
  qed
  show ?thesis using 1 2 3 by blast
qed

lemma load_summarize:
  "loadPattern exampleDisk store ''summarize'' =
     (Some \<lparr>Name = ''summarize'', Description = [], Pattern = ''Summarize:''\<rparr>, None)"
  by (simp add: load_simps)

lemma no_token_summarize:
  "\<not> Contains (Pattern \<lparr>Name = ''summarize'', Description = [], Pattern = ''Summarize:''\<rparr>) inputToken"
  by (simp add: inputToken_def HasPrefix_def)

theorem input_always_present_witness:
  "loadPattern exampleDisk store ''summarize'' =
     (Some \<lparr>Name = ''summarize'', Description = [], Pattern = ''Summarize:''\<rparr>, None) \<and>
   \<not> Contains ''Summarize:'' inputToken \<and>
   ensureInput (Some \<lparr>Name = ''summarize'', Description = [], Pattern = ''Summarize:''\<rparr>) =
     Returns \<lparr>Name = ''summarize'', Description = [],
              Pattern = ''Summarize:'' @ newline @ ''{{input}}''\<rparr> \<and>
   GetApplyVariables (ApplyTemplate 0 echo) exampleDisk store ''summarize'' Map.empty ''the text'' =
     Returns (Some \<lparr>Name = ''summarize'', Description = [],
                     Pattern = ''Summarize:'' @ newline @ ''the text''\<rparr>, None) \<and>
   Contains (''Summarize:'' @ newline @ ''the text'') ''the text''"
proof -
  have g: "GetApplyVariables (ApplyTemplate 0 echo) exampleDisk store ''summarize'' Map.empty ''the text'' =
     Returns (Some \<lparr>Name = ''summarize'', Description = [],
                     Pattern = ''Summarize:'' @ newline @ ''the text''\<rparr>, None)"
    unfolding GetApplyVariables_loaded [OF load_summarize]
    by (simp add: string_simps expand_simps)
  note w = input_always_present [OF load_summarize no_token_summarize,
      of "''the text''" 0 echo Map.empty]
  have e: "ensureInput (Some \<lparr>Name = ''summarize'', Description = [], Pattern = ''Summarize:''\<rparr>) =
     Returns \<lparr>Name = ''summarize'', Description = [],
              Pattern = ''Summarize:'' @ newline @ ''{{input}}''\<rparr>"
    using w by (simp add: string_simps)
  have "Contains (''Summarize:'' @ newline @ ''the text'') ''the text''"
    using w g by simp
  then show ?thesis
    using load_summarize no_token_summarize e g by simp
qed

text \<open>C8.  When the expander fails, \<open>GetApplyVariables\<close> returns its error, and the pattern holds
  the text as loaded with the input placeholder guaranteed: no sentinel, and nothing that the
  expansion substituted before it failed.\<close>

theorem expansion_failure_not_committed:
  assumes "loadPattern e ent source = (Some p, None)"
    and "tmpl (ReplaceAll (ensuredText (Pattern p)) inputToken inputSentinel) vars input = Inl err"
  shows "GetApplyVariables tmpl e ent source vars input =
           Returns (Some (p\<lparr>Pattern := ensuredText (Pattern p)\<rparr>), Some err)"
  unfolding GetApplyVariables_loaded [OF assms(1)] assms(2) by simp

lemma load_steps:
  "loadPattern exampleDisk store ''steps'' =
     (Some \<lparr>Name = ''steps'', Description = [],
            Pattern = ''A {{ext:ok:run:x}} B {{ext:bad:run:y}} C {{input}}''\<rparr>, None)"
  by (simp add: load_simps)

theorem expansion_failure_not_committed_witness:
  "loadPattern exampleDisk store ''steps'' =
     (Some \<lparr>Name = ''steps'', Description = [],
            Pattern = ''A {{ext:ok:run:x}} B {{ext:bad:run:y}} C {{input}}''\<rparr>, None) \<and>
   ApplyTemplate 2 flaky
     (ReplaceAll (ensuredText ''A {{ext:ok:run:x}} B {{ext:bad:run:y}} C {{input}}'')
        inputToken inputSentinel) Map.empty ''hello'' = Inl ''extension bad run: exit status 1'' \<and>
   GetApplyVariables (ApplyTemplate 2 flaky) exampleDisk store ''steps'' Map.empty ''hello'' =
     Returns (Some \<lparr>Name = ''steps'', Description = [],
                     Pattern = ''A {{ext:ok:run:x}} B {{ext:bad:run:y}} C {{input}}''\<rparr>,
              Some ''extension bad run: exit status 1'')"
proof -
  have f: "ApplyTemplate 2 flaky
     (ReplaceAll (ensuredText (Pattern \<lparr>Name = ''steps'', Description = [],
            Pattern = ''A {{ext:ok:run:x}} B {{ext:bad:run:y}} C {{input}}''\<rparr>))
        inputToken inputSentinel) Map.empty ''hello'' = Inl ''extension bad run: exit status 1''"
    by (simp add: numeral_2_eq_2 string_simps expand_simps flaky_def)
  show ?thesis
    using expansion_failure_not_committed [where tmpl = "ApplyTemplate 2 flaky" and vars = Map.empty
        and input = "''hello''", OF load_steps f] load_steps f
    by (simp add: ensuredText_def HasPrefix_def inputToken_def)
qed

text \<open>C6.  For a bare name whose file is in the custom directory and in the default one with
  different contents, loading returns the custom content; when the name is in neither, loading
  returns the error of reading the default file.\<close>

theorem override_precedence:
  assumes "\<not> isFilePath name"
  shows "(CustomPatternsDir ent \<noteq> [] \<and>
          ReadFile e (Join e [CustomPatternsDir ent, name, SystemPatternFile ent]) = Inr custom \<and>
          ReadFile e (Join e [Dir (Storage ent), name, SystemPatternFile ent]) = Inr dflt \<and>
          custom \<noteq> dflt \<longrightarrow>
            loadPattern e ent name =
              (Some \<lparr>Name = name, Description = [], Pattern = custom\<rparr>, None)) \<and>
         ((CustomPatternsDir ent = [] \<or>
           ReadFile e (Join e [CustomPatternsDir ent, name, SystemPatternFile ent]) = Inl customErr) \<and>
          ReadFile e (Join e [Dir (Storage ent), name, SystemPatternFile ent]) = Inl err \<longrightarrow>
            loadPattern e ent name = (None, Some err))"
  using assms by (auto simp: loadPattern_def getFromDB_def)

theorem override_precedence_witness:
  "\<not> isFilePath ''p'' \<and> \<not> isFilePath ''absent'' \<and>
   CustomPatternsDir store \<noteq> [] \<and>
   ReadFile exampleDisk (Join exampleDisk [CustomPatternsDir store, ''p'', SystemPatternFile store])
     = Inr ''custom p'' \<and>
   ReadFile exampleDisk (Join exampleDisk [Dir (Storage store), ''p'', SystemPatternFile store])
     = Inr ''default p'' \<and>
   loadPattern exampleDisk store ''p'' =
     (Some \<lparr>Name = ''p'', Description = [], Pattern = ''custom p''\<rparr>, None) \<and>
   loadPattern exampleDisk store ''absent'' =
     (None, Some ''open /patterns/absent/system.md: no such file or directory'')"
proof -
  have n: "\<not> isFilePath ''p''" "\<not> isFilePath ''absent''"
    by (simp_all add: isFilePath_def HasPrefix_def backslash_def)
  have c: "CustomPatternsDir store \<noteq> []" by (simp add: store_def)
  have r: "ReadFile exampleDisk (Join exampleDisk [CustomPatternsDir store, ''p'', SystemPatternFile store])
     = Inr ''custom p''"
    "ReadFile exampleDisk (Join exampleDisk [Dir (Storage store), ''p'', SystemPatternFile store])
     = Inr ''default p''"
    by (simp_all add: exampleDisk_def disk_def store_def)
  have a: "ReadFile exampleDisk
       (Join exampleDisk [CustomPatternsDir store, ''absent'', SystemPatternFile store])
     = Inl ''open /custom/absent/system.md: no such file or directory''"
    "ReadFile exampleDisk (Join exampleDisk [Dir (Storage store), ''absent'', SystemPatternFile store])
     = Inl ''open /patterns/absent/system.md: no such file or directory''"
    by (simp_all add: exampleDisk_def disk_def store_def)
  have 1: "loadPattern exampleDisk store ''p'' =
     (Some \<lparr>Name = ''p'', Description = [], Pattern = ''custom p''\<rparr>, None)"
    using override_precedence [OF n(1), of store exampleDisk "''custom p''" "''default p''"] c r
    by simp
  have 2: "loadPattern exampleDisk store ''absent'' =
     (None, Some ''open /patterns/absent/system.md: no such file or directory'')"
    using override_precedence [OF n(2), of store exampleDisk _ _
        "''open /custom/absent/system.md: no such file or directory''"
        "''open /patterns/absent/system.md: no such file or directory''"] a
    by simp
  show ?thesis using n c r 1 2 by simp
qed

lemma loadPattern_path:
  assumes "isFilePath source" and "GetAbsolutePath e source = Inr absPath"
  shows "loadPattern e ent source = (fst (getFromFile e ent absPath), None)"
  using assms by (simp add: loadPattern_def)

lemma getFromFile_missing:
  "getFromFile exampleDisk ent ''/nonexistent'' =
     (None, Some ''could not read pattern file /nonexistent: open /nonexistent: no such file or directory'')"
  by (simp add: getFromFile_def exampleDisk_def disk_def HasPrefix_def)

lemma isFilePath_slash: "isFilePath (CHR ''/'' # cs)"
  by (simp add: isFilePath_def HasPrefix_def)

text \<open>C3.  The claim: when the identifier is a path and the file cannot be read, loading
  returns the read error at once.  The code does not: \<open>getFromFile\<close> builds the error for the
  missing file \<^verbatim>\<open>/nonexistent\<close>, \<open>loadPattern\<close> returns no pattern and no error, and the
  resolution panics.\<close>

theorem loadPattern_drops_read_error:
  "snd (getFromFile exampleDisk store ''/nonexistent'') \<noteq> None \<and>
   loadPattern exampleDisk store ''/nonexistent'' = (None, None) \<and>
   GetApplyVariables (ApplyTemplate 0 echo) exampleDisk store ''/nonexistent'' Map.empty ''hello''
     = Panics"
proof -
  have "loadPattern exampleDisk store ''/nonexistent''
          = (fst (getFromFile exampleDisk store ''/nonexistent''), None)"
    by (rule loadPattern_path) (simp_all add: isFilePath_slash exampleDisk_def disk_def)
  then have l: "loadPattern exampleDisk store ''/nonexistent'' = (None, None)"
    by (simp add: getFromFile_missing)
  show ?thesis
    by (simp add: l getFromFile_missing GetApplyVariables_def applyVariables_def)
qed

text \<open>C4.  When the identifier is a path and reading it fails, \<open>loadPattern\<close> returns a nil
  pattern with a nil error, and both \<open>GetApplyVariables\<close> and \<open>GetWithoutVariables\<close> panic on
  the nil pattern instead of returning an error.\<close>

theorem unreadable_path_panics:
  assumes "isFilePath source"
    and "GetAbsolutePath e source = Inr absPath"
    and "getFromFile e ent absPath = (None, Some err)"
  shows "loadPattern e ent source = (None, None) \<and>
         GetApplyVariables tmpl e ent source vars input = Panics \<and>
         GetWithoutVariables e ent source input = Panics"
proof -
  have load: "loadPattern e ent source = (None, None)"
    using assms by (simp add: loadPattern_path)
  show ?thesis
    by (simp add: load GetApplyVariables_def GetWithoutVariables_def applyVariables_def
        applyInput_def)
qed

theorem unreadable_path_panics_witness:
  "isFilePath ''/nonexistent'' \<and>
   GetAbsolutePath exampleDisk ''/nonexistent'' = Inr ''/nonexistent'' \<and>
   getFromFile exampleDisk store ''/nonexistent'' =
     (None, Some ''could not read pattern file /nonexistent: open /nonexistent: no such file or directory'') \<and>
   loadPattern exampleDisk store ''/nonexistent'' = (None, None) \<and>
   GetApplyVariables (ApplyTemplate 0 echo) exampleDisk store ''/nonexistent'' Map.empty ''hello''
     = Panics \<and>
   GetWithoutVariables exampleDisk store ''/nonexistent'' ''hello'' = Panics"
proof -
  have a: "GetAbsolutePath exampleDisk ''/nonexistent'' = Inr ''/nonexistent''"
    by (simp add: exampleDisk_def disk_def)
  show ?thesis
    using unreadable_path_panics [where tmpl = "ApplyTemplate 0 echo" and vars = Map.empty
        and input = "''hello''", OF isFilePath_slash a getFromFile_missing]
      isFilePath_slash a getFromFile_missing
    by simp
qed

text \<open>C7.  \<open>GetWithoutVariables\<close> guarantees the input placeholder and replaces its occurrences
  by the input, and nothing else: the text is its pieces joined by the placeholder, the result
  is the same pieces joined by the input, and no piece contains the placeholder.  Any other
  placeholder lies in a piece and stays as it is written.\<close>

theorem input_only_replaces_token:
  assumes "loadPattern e ent source = (Some p, None)"
  shows "GetWithoutVariables e ent source input =
           Returns (Some (p\<lparr>Pattern := joinWith input (pieces (ensuredText (Pattern p)) inputToken)\<rparr>),
                    None) \<and>
         Contains (ensuredText (Pattern p)) inputToken \<and>
         ensuredText (Pattern p) = joinWith inputToken (pieces (ensuredText (Pattern p)) inputToken) \<and>
         (\<forall>seg \<in> set (pieces (ensuredText (Pattern p)) inputToken). \<not> Contains seg inputToken)"
proof -
  have t: "inputToken \<noteq> []" by (simp add: inputToken_def)
  note pp = pieces_properties [OF t, of "ensuredText (Pattern p)" input]
  show ?thesis
    unfolding GetWithoutVariables_loaded [OF assms]
    using pp Contains_ensuredText by simp
qed

theorem input_only_replaces_token_witness:
  "loadPattern exampleDisk store ''greet'' =
     (Some \<lparr>Name = ''greet'', Description = [], Pattern = ''Name: {{name}}, Input: {{input}}''\<rparr>,
      None) \<and>
   pieces (ensuredText ''Name: {{name}}, Input: {{input}}'') inputToken =
     [''Name: {{name}}, Input: '', ''''] \<and>
   GetWithoutVariables exampleDisk store ''greet'' ''X'' =
     Returns (Some \<lparr>Name = ''greet'', Description = [], Pattern = ''Name: {{name}}, Input: X''\<rparr>,
              None)"
proof -
  have p: "pieces (ensuredText ''Name: {{name}}, Input: {{input}}'') inputToken =
     [''Name: {{name}}, Input: '', '''']"
    by (simp add: ensuredText_def pieces.simps HasPrefix_def inputToken_def)
  have "GetWithoutVariables exampleDisk store ''greet'' ''X'' =
     Returns (Some \<lparr>Name = ''greet'', Description = [], Pattern = ''Name: {{name}}, Input: X''\<rparr>,
              None)"
    using input_only_replaces_token [OF load_greet, of "''X''"] by (simp add: p)
  then show ?thesis using load_greet p by simp
qed

lemma keys_foldl_update:
  "fst ` set (foldl (\<lambda>m name. AList.update name True m) m0 names) =
     fst ` set m0 \<union> set names"
  by (induction names arbitrary: m0) (auto simp: dom_update)

lemma distinct_foldl_update:
  "distinct (map fst m0) \<Longrightarrow>
     distinct (map fst (foldl (\<lambda>m name. AList.update name True m) m0 names))"
  by (induction names arbitrary: m0) (auto simp: distinct_update)

lemma sort_visit:
  assumes "distinct (ks :: string list)" and "distinct (order ks)" and "set (order ks) = set ks"
  shows "sort (order ks) = sorted_list_of_set (set ks)"
proof -
  have "sorted_list_of_set (set (sort (order ks))) = sort (order ks)"
    by (rule sorted_list_of_set.idem_if_sorted_distinct) (simp_all add: assms)
  then show ?thesis using assms by simp
qed

text \<open>C9.  Whatever the order in which the map of names is visited, \<open>GetNames\<close> returns the
  error of listing the default directory, or else the names of the default directory and of
  the custom directory (none when it is not configured or cannot be listed), each once, in
  ascending order; so two calls on the same disk return the same list.\<close>

theorem GetNames_sorted_union:
  assumes "\<And>ks. distinct ks \<Longrightarrow> distinct (order ks) \<and> set (order ks) = set ks"
    and "\<And>ks. distinct ks \<Longrightarrow> distinct (order' ks) \<and> set (order' ks) = set ks"
  shows "GetNames order e ent =
           (case StorageGetNames e (Storage ent) of
              Inl err \<Rightarrow> (None, Some err)
            | Inr mainNames \<Rightarrow>
                (Some (sorted_list_of_set (set mainNames \<union> customNames e ent)), None)) \<and>
         (\<forall>names. GetNames order e ent = (Some names, None) \<longrightarrow> sorted names \<and> distinct names) \<and>
         GetNames order' e ent = GetNames order e ent"
proof -
  let ?ins = "\<lambda>m name. AList.update name True m"
  have eq: "GetNames f e ent =
           (case StorageGetNames e (Storage ent) of
              Inl err \<Rightarrow> (None, Some err)
            | Inr mainNames \<Rightarrow>
                (Some (sorted_list_of_set (set mainNames \<union> customNames e ent)), None))"
    if f: "\<And>ks. distinct ks \<Longrightarrow> distinct (f ks) \<and> set (f ks) = set ks" for f
  proof (cases "StorageGetNames e (Storage ent)")
    case (Inl err)
    then show ?thesis by (simp add: GetNames_def)
  next
    case (Inr mainNames)
    define m1 where "m1 = foldl ?ins [] mainNames"
    have d1: "distinct (map fst m1)" unfolding m1_def by (rule distinct_foldl_update) simp
    have k1: "fst ` set m1 = set mainNames" unfolding m1_def by (simp add: keys_foldl_update)
    have v: "sort (f (map fst m)) = sorted_list_of_set (fst ` set m)"
      if "distinct (map fst m)" for m :: "(string \<times> bool) list"
      using sort_visit [OF that, of f] f [OF that] by simp
    show ?thesis
    proof (cases "CustomPatternsDir ent = []")
      case True
      then show ?thesis
        using Inr v [OF d1] k1 by (simp add: GetNames_def customNames_def m1_def)
    next
      case False
      show ?thesis
      proof (cases "StorageGetNames e
                   \<lparr>Label = [], Dir = CustomPatternsDir ent, ItemIsDir = ItemIsDir (Storage ent),
                    FileExtension = FileExtension (Storage ent)\<rparr>")
        case (Inl customErr)
        then show ?thesis
          using Inr False v [OF d1] k1 by (simp add: GetNames_def customNames_def m1_def)
      next
        case c: (Inr customNames)
        define m2 where "m2 = foldl ?ins m1 customNames"
        have d2: "distinct (map fst m2)" unfolding m2_def using d1 by (rule distinct_foldl_update)
        have k2: "fst ` set m2 = set mainNames \<union> set customNames"
          unfolding m2_def using k1 by (simp add: keys_foldl_update)
        show ?thesis
          using Inr False c v [OF d2] k2 
          by (simp add: GetNames_def customNames_def m1_def m2_def)
      qed
    qed
  qed
  have 1: "GetNames order e ent =
           (case StorageGetNames e (Storage ent) of
              Inl err \<Rightarrow> (None, Some err)
            | Inr mainNames \<Rightarrow>
                (Some (sorted_list_of_set (set mainNames \<union> customNames e ent)), None))"
    using assms(1) by (rule eq)
  have 2: "GetNames order' e ent = GetNames order e ent"
    unfolding 1 using assms(2) by (rule eq)
  have 3: "sorted names \<and> distinct names" if "GetNames order e ent = (Some names, None)" for names
    using that unfolding 1 by (auto split: sum.splits)
  show ?thesis using 1 2 3 by blast
qed

lemma GetNames_example:
  "GetNames rev exampleDisk store =
     (Some [''ai_echo'', ''greet'', ''mine'', ''p'', ''summarize''], None)"
  by code_simp

theorem GetNames_sorted_union_witness:
  "GetNames rev exampleDisk store =
     (Some [''ai_echo'', ''greet'', ''mine'', ''p'', ''summarize''], None) \<and>
   GetNames (\<lambda>ks. ks) exampleDisk store =
     (Some [''ai_echo'', ''greet'', ''mine'', ''p'', ''summarize''], None) \<and>
   sorted [''ai_echo'', ''greet'', ''mine'', ''p'', ''summarize''] \<and>
   distinct [''ai_echo'', ''greet'', ''mine'', ''p'', ''summarize'']"
proof -
  note w = GetNames_sorted_union [of rev "\<lambda>ks. ks" exampleDisk store]
  have r: "distinct (rev ks) \<and> set (rev ks) = set ks" if "distinct ks" for ks :: "string list"
    using that by simp
  have i: "distinct ((\<lambda>ks. ks) ks) \<and> set ((\<lambda>ks. ks) ks) = set ks"
    if "distinct ks" for ks :: "string list"
    using that by simp
  have "GetNames (\<lambda>ks. ks) exampleDisk store = GetNames rev exampleDisk store"
    using w [OF r i] by blast
  moreover have "sorted [''ai_echo'', ''greet'', ''mine'', ''p'', ''summarize''] \<and>
      distinct [''ai_echo'', ''greet'', ''mine'', ''p'', ''summarize'']"
    using w [OF r i] GetNames_example by blast
  ultimately show ?thesis using GetNames_example by simp
qed







end
